theory Spec2Isabelle
  imports Main "HOL-Library.Sublist"
begin

section \<open>The browse-file dialog of the pipeline components manager\<close>

text \<open>
  A shallow embedding of \<^verbatim>\<open>BrowseFileDialog.tsx\<close>. JavaScript strings are
  character lists; an optional property (\<^verbatim>\<open>rootPath?: string\<close>) is an
  \<open>option\<close> whose \<open>None\<close> is \<^verbatim>\<open>undefined\<close>; a condition on such a value
  is JavaScript truthiness. Calls into the host toolkit (the original handler of the
  directory listing, \<^verbatim>\<open>preventDefault\<close>, the click on the accept button,
  \<^verbatim>\<open>model.cd\<close>) are recorded as the values a function returns, in the order
  the code makes them.
\<close>

subsection \<open>JavaScript values\<close>

text \<open>Truthiness of a \<^verbatim>\<open>boolean | undefined\<close>.\<close>

fun truthy :: "bool option \<Rightarrow> bool" where
  "truthy None = False"
| "truthy (Some b) = b"

text \<open>
  \<^verbatim>\<open>s.indexOf(pat)\<close>: the least position at which \<open>pat\<close> occurs in \<open>s\<close>;
  \<open>None\<close> is the result \<^verbatim>\<open>-1\<close>.
\<close>

fun indexOf :: "string \<Rightarrow> string \<Rightarrow> nat option" where
  "indexOf [] pat = (if pat = [] then Some 0 else None)"
| "indexOf (c # cs) pat =
     (if prefix pat (c # cs) then Some 0 else map_option Suc (indexOf cs pat))"

text \<open>
  \<^verbatim>\<open>s.replace(pat, rep)\<close> for a string pattern: only the first occurrence is
  replaced. The source only ever passes the replacement \<^verbatim>\<open>''\<close>, in which
  no \<^verbatim>\<open>$\<close> pattern can occur.
\<close>

definition replace :: "string \<Rightarrow> string \<Rightarrow> string \<Rightarrow> string" where
  "replace s pat rep =
     (case indexOf s pat of
        None \<Rightarrow> s
      | Some i \<Rightarrow> take i s @ rep @ drop (i + length pat) s)"

text \<open>
  \<^verbatim>\<open>s.trim()\<close>: the white space and line terminators of ECMAScript among the
  code units below 256 (tab, LF, VT, FF, CR, space, no-break space).
\<close>

definition js_whitespace :: "char \<Rightarrow> bool" where
  "js_whitespace c = (of_char c \<in> {9, 10, 11, 12, 13, 32, 160 :: nat})"

definition trim :: "string \<Rightarrow> string" where
  "trim s = rev (dropWhile js_whitespace (rev (dropWhile js_whitespace s)))"

text \<open>\<^verbatim>\<open>s.endsWith(suf)\<close>; \<^verbatim>\<open>xs.includes(x)\<close> is written \<open>x \<in> set xs\<close>.\<close>

definition endsWith :: "string \<Rightarrow> string \<Rightarrow> bool" where
  "endsWith s suf = suffix suf s"

subsection \<open>Data\<close>

text \<open>A contents model of the host (\<^verbatim>\<open>Contents.IModel\<close>): the fields the code reads.\<close>

record item =
  name :: string
  path :: string
  type :: string

text \<open>
  A DOM event as the code inspects it: its class (\<^verbatim>\<open>instanceof MouseEvent\<close>,
  \<^verbatim>\<open>instanceof KeyboardEvent\<close>, or neither), its \<^verbatim>\<open>type\<close>, and the
  modifier flags that only mouse and keyboard events carry.
\<close>

datatype event =
    MouseEvent (etype: string) (shiftKey: bool) (metaKey: bool)
  | KeyboardEvent (etype: string) (shiftKey: bool) (metaKey: bool)
  | OtherEvent (etype: string)

text \<open>
  The host's directory listing, as far as the dialog uses it: the selected items and
  \<^verbatim>\<open>modelForClick\<close>, which yields the item under the pointer or
  \<^verbatim>\<open>undefined\<close>.
\<close>

record dir_listing =
  selectedItems :: "item list"
  modelForClick :: "event \<Rightarrow> item option"

text \<open>The fields of class \<^verbatim>\<open>BrowseFileDialog\<close>.\<close>

record browse_file_dialog =
  directoryListing :: dir_listing
  multiselect :: "bool option"
  includeDir :: "bool option"
  acceptFileOnDblClick :: "bool option"
  model_filter :: "item \<Rightarrow> bool"
  breadCrumbs_rootPath :: "string option"

text \<open>
  What \<^verbatim>\<open>handleEvent\<close> does to its surroundings, one entry per call:
  \<open>Forward e\<close> is \<^verbatim>\<open>this.dirListingHandleEvent.call(this.directoryListing, e)\<close>,
  \<open>ClickAccept\<close> is the click on the button found by
  \<^verbatim>\<open>document.querySelector('.amphi-browseFileDialog-open .jp-mod-accept')\<close>.
\<close>

datatype action =
    Forward event
  | PreventDefault
  | StopPropagation
  | ClickAccept

subsection \<open>Selection and event routing\<close>

text \<open>
  \<^verbatim>\<open>getValue\<close>: the loop over \<^verbatim>\<open>selectedItems()\<close> pushes onto
  \<^verbatim>\<open>selected\<close>.
\<close>

fun getValue_loop :: "bool option \<Rightarrow> item list \<Rightarrow> item list \<Rightarrow> item list" where
  "getValue_loop inc [] selected = selected"
| "getValue_loop inc (it # rest) selected =
     getValue_loop inc rest
       (if truthy inc \<or> type it \<noteq> ''directory'' then selected @ [it] else selected)"

definition getValue :: "browse_file_dialog \<Rightarrow> item list" where
  "getValue d = getValue_loop (includeDir d) (selectedItems (directoryListing d)) []"

text \<open>The local \<^verbatim>\<open>modifierKey\<close> of \<^verbatim>\<open>handleEvent\<close>.\<close>

fun modifierKey :: "event \<Rightarrow> bool" where
  "modifierKey (MouseEvent t s m) = (s \<or> m)"
| "modifierKey (KeyboardEvent t s m) = (s \<or> m)"
| "modifierKey (OtherEvent t) = False"

text \<open>
  \<^verbatim>\<open>handleEvent\<close>. The argument \<open>okButton\<close> says whether the query for the
  accept button finds an element.
\<close>

definition handleEvent :: "browse_file_dialog \<Rightarrow> bool \<Rightarrow> event \<Rightarrow> action list" where
  "handleEvent d okButton ev =
     (if etype ev \<in> {''keydown'', ''keyup'', ''mousedown'', ''mouseup'', ''click''} then
        (if truthy (multiselect d) \<or> \<not> modifierKey ev then [Forward ev] else [])
      else if etype ev = ''dblclick'' then
        (let clickedItem = modelForClick (directoryListing d) ev in
         if map_option type clickedItem = Some ''directory'' then [Forward ev]
         else [PreventDefault, StopPropagation]
              @ (if truthy (acceptFileOnDblClick d) then
                   (if okButton then [ClickAccept] else [])
                 else []))
      else [Forward ev])"

text \<open>
  Carrying out a list of actions on a host state \<open>'w\<close>, given what the original
  handler and the other calls do there.
\<close>

fun perform :: "(event \<Rightarrow> 'w \<Rightarrow> 'w) \<Rightarrow> (action \<Rightarrow> 'w \<Rightarrow> 'w) \<Rightarrow> action list \<Rightarrow> 'w \<Rightarrow> 'w" where
  "perform orig other [] w = w"
| "perform orig other (Forward e # as) w = perform orig other as (orig e w)"
| "perform orig other (a # as) w = perform orig other as (other a w)"

subsection \<open>Construction\<close>

text \<open>The \<^verbatim>\<open>options\<close> object that \<^verbatim>\<open>BrowseFileDialog.init\<close> receives.\<close>

record init_options =
  filter_in :: "(item \<Rightarrow> bool) option"
  multiselect_in :: "bool option"
  includeDir_in :: "bool option"
  rootPath_in :: "string option"
  startPath_in :: "string option"
  acceptFileOnDblClick_in :: "bool option"
  extensions_in :: "string list option"

text \<open>
  \<^verbatim>\<open>name.split('.')\<close> and \<^verbatim>\<open>toLowerCase()\<close>. The split of a string
  is never the empty list (\<open>split_from_nonempty\<close> below), so \<^verbatim>\<open>pop()\<close> is
  its last element. Lower case is
  that of the code units below 256 (the letters A to Z, and the Latin-1 capitals).
\<close>

fun split_from :: "string \<Rightarrow> char \<Rightarrow> string \<Rightarrow> string list" where
  "split_from cur sep [] = [cur]"
| "split_from cur sep (c # cs) =
     (if c = sep then cur # split_from [] sep cs else split_from (cur @ [c]) sep cs)"

definition split :: "string \<Rightarrow> char \<Rightarrow> string list" where
  "split s sep = split_from [] sep s"

definition pop :: "string list \<Rightarrow> string" where
  "pop parts = last parts"

definition lower_char :: "char \<Rightarrow> char" where
  "lower_char c =
     (let n = of_char c :: nat in
      if (65 \<le> n \<and> n \<le> 90) \<or> (192 \<le> n \<and> n \<le> 222 \<and> n \<noteq> 215)
      then char_of (n + 32) else c)"

definition toLowerCase :: "string \<Rightarrow> string" where
  "toLowerCase s = map lower_char s"

text \<open>The \<^verbatim>\<open>filterFunction\<close> of \<^verbatim>\<open>init\<close>.\<close>

definition extensionFilter :: "string list \<Rightarrow> item \<Rightarrow> bool" where
  "extensionFilter exts model =
     (if type model = ''directory'' then True
      else (let fileExtension = ''.'' @ toLowerCase (pop (split (name model) CHR ''.''))
            in fileExtension \<in> set exts))"

definition filterFunction :: "init_options \<Rightarrow> item \<Rightarrow> bool" where
  "filterFunction options =
     (let otherwise = (case filter_in options of Some f \<Rightarrow> f | None \<Rightarrow> (\<lambda>_. True))
      in case extensions_in options of
           None \<Rightarrow> otherwise
         | Some exts \<Rightarrow> if length exts > 0 then extensionFilter exts else otherwise)"

text \<open>
  The constructor. The listing is the \<^verbatim>\<open>DirListing\<close> the host creates. The
  constructor keeps the listing's own handler in \<^verbatim>\<open>dirListingHandleEvent\<close> and
  installs \<^verbatim>\<open>handleEvent\<close> in its place: from then on every event of the
  listing goes through \<^const>\<open>handleEvent\<close>, and \<open>Forward\<close> is the only way to the
  original handler.
\<close>

definition new_BrowseFileDialog ::
  "dir_listing \<Rightarrow> (item \<Rightarrow> bool) \<Rightarrow> init_options \<Rightarrow> browse_file_dialog" where
  "new_BrowseFileDialog listing filterFn options =
     \<lparr> directoryListing = listing,
       multiselect = multiselect_in options,
       includeDir = includeDir_in options,
       acceptFileOnDblClick = acceptFileOnDblClick_in options,
       model_filter = filterFn,
       breadCrumbs_rootPath = rootPath_in options \<rparr>"

text \<open>The value of a \<^verbatim>\<open>string | undefined\<close> when it is truthy.\<close>

fun truthy_value :: "string option \<Rightarrow> string option" where
  "truthy_value None = None"
| "truthy_value (Some s) = (if s = [] then None else Some s)"

text \<open>The calls of \<^verbatim>\<open>model.cd\<close> that \<^verbatim>\<open>init\<close> makes, in order.\<close>

definition init_cd :: "init_options \<Rightarrow> string list" where
  "init_cd options =
     (case truthy_value (startPath_in options) of
        Some startPath \<Rightarrow>
          (case truthy_value (rootPath_in options) of
             None \<Rightarrow> [startPath]
           | Some rootPath \<Rightarrow>
               if indexOf startPath rootPath = Some 0 then [startPath] else [])
      | None \<Rightarrow>
          (case truthy_value (rootPath_in options) of
             Some rootPath \<Rightarrow> [rootPath]
           | None \<Rightarrow> []))"

definition init :: "dir_listing \<Rightarrow> init_options \<Rightarrow> browse_file_dialog \<times> string list" where
  "init listing options =
     (new_BrowseFileDialog listing (filterFunction options) options, init_cd options)"

subsection \<open>Showing the dialog\<close>

text \<open>
  \<^verbatim>\<open>IBrowseFileDialogOptions\<close>. For \<open>acceptFileOnDblClick\<close> the outer
  \<open>None\<close> says that the object has no own property of that name, which is what
  \<^verbatim>\<open>hasOwnProperty\<close> tests.
\<close>

record browse_options =
  filter_opt :: "(item \<Rightarrow> bool) option"
  multiselect_opt :: "bool option"
  includeDir_opt :: "bool option"
  acceptFileOnDblClick_opt :: "bool option option"
  rootPath_opt :: "string option"
  startPath_opt :: "string option"
  extensions_opt :: "string list option"

text \<open>The buttons the host makes: \<^verbatim>\<open>Dialog.cancelButton()\<close> and \<^verbatim>\<open>Dialog.okButton({ label })\<close>.\<close>

datatype button = CancelButton | OkButton string

record dialog =
  title :: string
  body :: browse_file_dialog
  buttons :: "button list"
  classes :: "string list"

text \<open>
  What \<^verbatim>\<open>dialog.launch()\<close> resolves with: whether the pressed button accepts,
  and the value, which is \<^verbatim>\<open>null\<close> (\<open>None\<close>) or the list that
  \<^verbatim>\<open>getValue\<close> gave.
\<close>

record launch_result =
  button_accept :: bool
  result_value :: "item list option"

datatype js_error = TypeError

definition BROWSE_FILE_CLASS :: string where
  "BROWSE_FILE_CLASS = ''amphi-browseFileDialog''"

definition BROWSE_FILE_OPEN_CLASS :: string where
  "BROWSE_FILE_OPEN_CLASS = ''amphi-browseFileDialog-open''"

text \<open>
  The class name of \<^verbatim>\<open>document.body\<close> before the launch and after the dialog has
  resolved. It does not enter the result of \<^verbatim>\<open>showBrowseFileDialog\<close>.
\<close>

definition body_className_open :: "string \<Rightarrow> string" where
  "body_className_open cn = cn @ '' '' @ BROWSE_FILE_OPEN_CLASS"

definition body_className_closed :: "string \<Rightarrow> string" where
  "body_className_closed cn = trim (replace cn BROWSE_FILE_OPEN_CLASS [])"

definition init_options_of :: "browse_options \<Rightarrow> init_options" where
  "init_options_of options =
     \<lparr> filter_in = filter_opt options,
       multiselect_in = multiselect_opt options,
       includeDir_in = includeDir_opt options,
       rootPath_in = rootPath_opt options,
       startPath_in = startPath_opt options,
       acceptFileOnDblClick_in =
         (case acceptFileOnDblClick_opt options of
            Some v \<Rightarrow> v
          | None \<Rightarrow> Some True),
       extensions_in = None \<rparr>"

definition new_Dialog :: "dir_listing \<Rightarrow> browse_options \<Rightarrow> dialog" where
  "new_Dialog listing options =
     \<lparr> title = ''Select a file'',
       body = fst (init listing (init_options_of options)),
       buttons = [CancelButton, OkButton ''Select''],
       classes = [BROWSE_FILE_CLASS] \<rparr>"

text \<open>The callback given to \<^verbatim>\<open>then\<close>; reading \<^verbatim>\<open>length\<close> of \<^verbatim>\<open>null\<close> throws.\<close>

definition relativeToPath :: "string \<Rightarrow> string" where
  "relativeToPath rootPath = (if endsWith rootPath ''/'' then rootPath else rootPath @ ''/'')"

definition on_result :: "browse_options \<Rightarrow> launch_result \<Rightarrow> js_error + launch_result" where
  "on_result options result =
     (case truthy_value (rootPath_opt options) of
        None \<Rightarrow> Inr result
      | Some rootPath \<Rightarrow>
          if button_accept result then
            (case result_value result of
               None \<Rightarrow> Inl TypeError
             | Some vals \<Rightarrow>
                 if length vals \<noteq> 0 then
                   Inr (result\<lparr> result_value :=
                     Some (map (\<lambda>val. val\<lparr> path := replace (path val) (relativeToPath rootPath) [] \<rparr>)
                             vals) \<rparr>)
                 else Inr result)
          else Inr result)"

text \<open>
  \<^verbatim>\<open>showBrowseFileDialog\<close>; \<open>launch\<close> stands for the user's interaction with
  the dialog, that is for what the promise of \<^verbatim>\<open>dialog.launch()\<close> resolves to.
\<close>

definition showBrowseFileDialog ::
  "(dialog \<Rightarrow> launch_result) \<Rightarrow> dir_listing \<Rightarrow> browse_options \<Rightarrow> js_error + launch_result" where
  "showBrowseFileDialog launch listing options =
     on_result options (launch (new_Dialog listing options))"

subsection \<open>Breadcrumbs\<close>

text \<open>
  A breadcrumb element matched by
  \<^verbatim>\<open>'.amphi-browseFileDialog .jp-BreadCrumbs > span[title]'\<close>: its
  \<^verbatim>\<open>title\<close> and its \<^verbatim>\<open>className\<close>.
\<close>

record crumb =
  crumb_title :: string
  className :: string

definition disabled_class :: string where
  "disabled_class = ''amphi-BreadCrumbs-disabled''"

text \<open>The body of the \<^verbatim>\<open>forEach\<close>; \<^verbatim>\<open>this.rootPath ?? ''\<close> is the case on the option.\<close>

definition update_crumb :: "string option \<Rightarrow> crumb \<Rightarrow> crumb" where
  "update_crumb rootPath crumb =
     (if indexOf (crumb_title crumb) (case rootPath of None \<Rightarrow> [] | Some r \<Rightarrow> r) = Some 0 then
        crumb\<lparr> className := trim (replace (className crumb) ''amphi-BreadCrumbs-disabled'' []) \<rparr>
      else if indexOf (className crumb) ''amphi-BreadCrumbs-disabled'' = None then
        crumb\<lparr> className := className crumb @ '' amphi-BreadCrumbs-disabled'' \<rparr>
      else crumb)"

text \<open>
  \<^verbatim>\<open>onUpdateRequest\<close>, after the call of the inherited method: \<open>localPath\<close>
  is \<^verbatim>\<open>contents.localPath(this.model.path)\<close> and \<open>breadcrumbs\<close> are the
  elements the query finds; the result is these elements afterwards.
\<close>

definition onUpdateRequest :: "string option \<Rightarrow> string \<Rightarrow> crumb list \<Rightarrow> crumb list" where
  "onUpdateRequest rootPath localPath breadcrumbs =
     (if localPath \<noteq> [] then
        (case truthy_value rootPath of
           Some r \<Rightarrow>
             if indexOf localPath r = Some 0 then map (update_crumb rootPath) breadcrumbs
             else breadcrumbs
         | None \<Rightarrow> breadcrumbs)
      else breadcrumbs)"

text \<open>
  The classes an element carries are the tokens of its \<^verbatim>\<open>className\<close>, split at
  ASCII white space (tab, LF, FF, CR, space), as \<^verbatim>\<open>classList\<close> has them.
\<close>

definition ascii_whitespace :: "char \<Rightarrow> bool" where
  "ascii_whitespace c = (of_char c \<in> {9, 10, 12, 13, 32 :: nat})"

fun tokens_from :: "string \<Rightarrow> string \<Rightarrow> string list" where
  "tokens_from cur [] = (if cur = [] then [] else [cur])"
| "tokens_from cur (c # cs) =
     (if ascii_whitespace c then (if cur = [] then [] else [cur]) @ tokens_from [] cs
      else tokens_from (cur @ [c]) cs)"

definition classList :: "string \<Rightarrow> string list" where
  "classList cn = tokens_from [] cn"

definition carries :: "crumb \<Rightarrow> string \<Rightarrow> bool" where
  "carries crumb cls = (cls \<in> set (classList (className crumb)))"

text \<open>
  Class names as the host toolkit and this widget write them: the text
  \<^verbatim>\<open>amphi-BreadCrumbs-disabled\<close> is either absent (\<open>plain_className\<close>), or
  it occurs once, as a class name of its own, delimited by white space or by the ends of
  the string (\<open>tidy_className\<close>). The toolkit's own names
  (\<^verbatim>\<open>jp-BreadCrumbs-item\<close> and the like) do not contain the text, and
  \<^verbatim>\<open>update_crumb\<close> keeps class names tidy.
\<close>

definition plain_className :: "string \<Rightarrow> bool" where
  "plain_className cn = (indexOf cn disabled_class = None)"

definition tidy_className :: "string \<Rightarrow> bool" where
  "tidy_className cn =
     (case indexOf cn disabled_class of
        None \<Rightarrow> True
      | Some i \<Rightarrow>
          (let pre = take i cn; post = drop (i + length disabled_class) cn
           in (pre = [] \<or> ascii_whitespace (last pre))
            \<and> (post = [] \<or> ascii_whitespace (hd post))
            \<and> indexOf post disabled_class = None))"

subsection \<open>Notions of the specification\<close>

text \<open>
  The text after the last occurrence of a character in a string; for a string without
  that character, the whole string.
\<close>

definition text_after_last :: "char \<Rightarrow> string \<Rightarrow> string" where
  "text_after_last sep s = rev (takeWhile (\<lambda>c. c \<noteq> sep) (rev s))"

text \<open>A string with the first occurrence of \<open>pat\<close> removed, if there is one.\<close>

fun remove_first :: "string \<Rightarrow> string \<Rightarrow> string" where
  "remove_first pat [] = []"
| "remove_first pat (c # cs) =
     (if prefix pat (c # cs) then drop (length pat) (c # cs) else c # remove_first pat cs)"

subsection \<open>Sample values\<close>

definition sample_file :: item where
  "sample_file = \<lparr> name = ''a.CSV'', path = ''data/a.CSV'', type = ''file'' \<rparr>"

definition sample_dir :: item where
  "sample_dir = \<lparr> name = ''sub'', path = ''data/sub'', type = ''directory'' \<rparr>"

definition sample_listing :: "item option \<Rightarrow> dir_listing" where
  "sample_listing clicked =
     \<lparr> selectedItems = [sample_dir, sample_file], modelForClick = (\<lambda>_. clicked) \<rparr>"

definition sample_dialog :: "item option \<Rightarrow> browse_file_dialog" where
  "sample_dialog clicked =
     \<lparr> directoryListing = sample_listing clicked,
       multiselect = Some False,
       includeDir = None,
       acceptFileOnDblClick = Some True,
       model_filter = (\<lambda>_. True),
       breadCrumbs_rootPath = Some ''data'' \<rparr>"

definition sample_options :: browse_options where
  "sample_options =
     \<lparr> filter_opt = None, multiselect_opt = None, includeDir_opt = None,
       acceptFileOnDblClick_opt = None, rootPath_opt = Some ''data'',
       startPath_opt = None, extensions_opt = None \<rparr>"

definition sample_init_options :: init_options where
  "sample_init_options =
     \<lparr> filter_in = None, multiselect_in = None, includeDir_in = None,
       rootPath_in = Some ''data'', startPath_in = Some ''data/sub'',
       acceptFileOnDblClick_in = Some True, extensions_in = Some [''.csv'', ''.json''] \<rparr>"

definition sample_crumbs :: "crumb list" where
  "sample_crumbs =
     [\<lparr> crumb_title = ''/srv/jupyter'', className = ''jp-BreadCrumbs-home'' \<rparr>,
      \<lparr> crumb_title = ''data'',
        className = ''jp-BreadCrumbs-item amphi-BreadCrumbs-disabled jp-mod-dropTarget'' \<rparr>,
      \<lparr> crumb_title = ''data/sub'', className = ''jp-BreadCrumbs-item'' \<rparr>]"

section \<open>Properties\<close>

subsection \<open>Helper facts\<close>

lemma truthy_iff: "truthy b = (b = Some True)"
  by (cases b) auto

lemma getValue_loop_filter:
  "getValue_loop inc xs acc = acc @ filter (\<lambda>it. truthy inc \<or> type it \<noteq> ''directory'') xs"
  by (induction xs arbitrary: acc) auto

lemma truthy_value_Some: "(truthy_value x = Some s) = (x = Some s \<and> s \<noteq> [])"
  by (cases x) auto

lemma truthy_value_None: "(truthy_value x = None) = (x = None \<or> x = Some [])"
  by (cases x) auto


lemma indexOf_0_iff: "(indexOf s pat = Some 0) = prefix pat s"
  by (cases s) auto

lemma indexOf_None_iff: "(indexOf s pat = None) = (\<not> sublist pat s)"
  by (induction s) (auto simp: sublist_Cons_right)

lemma indexOf_Some_decomp:
  "indexOf s pat = Some i \<Longrightarrow> s = take i s @ pat @ drop (i + length pat) s"
proof (induction s arbitrary: i)
  case Nil
  then show ?case by (auto split: if_splits)
next
  case (Cons c cs)
  show ?case
  proof (cases "prefix pat (c # cs)")
    case True
    with Cons.prems have "i = 0" by simp
    with True show ?thesis by (auto simp: prefix_def)
  next
    case False
    with Cons.prems obtain j where j: "indexOf cs pat = Some j" "i = Suc j" by auto
    from Cons.IH [OF j(1)] j(2) show ?thesis by simp
  qed
qed

lemma indexOf_Some_least:
  "indexOf s pat = Some i \<Longrightarrow> s = ps @ pat @ ss \<Longrightarrow> i \<le> length ps"
proof (induction s arbitrary: i ps)
  case Nil
  then show ?case by (auto split: if_splits)
next
  case (Cons c cs)
  show ?case
  proof (cases "prefix pat (c # cs)")
    case True
    with Cons.prems(1) show ?thesis by simp
  next
    case False
    with Cons.prems(1) obtain j where j: "indexOf cs pat = Some j" "i = Suc j" by auto
    from False Cons.prems(2) have "ps \<noteq> []" by (auto simp: prefix_def)
    then obtain ps' where ps': "ps = c # ps'" "cs = ps' @ pat @ ss"
      using Cons.prems(2) by (cases ps) auto
    from Cons.IH [OF j(1) ps'(2)] j(2) ps'(1) show ?thesis by simp
  qed
qed

lemma indexOf_Some_before:
  assumes "indexOf s pat = Some i" and "pat \<noteq> []"
  shows "\<not> sublist pat (take i s)"
proof
  assume "sublist pat (take i s)"
  then obtain ps ss where eq: "take i s = ps @ pat @ ss" by (auto simp: sublist_def)
  then have "s = ps @ pat @ (ss @ drop i s)"
    by (metis append_assoc append_take_drop_id)
  from indexOf_Some_least [OF assms(1) this] have "i \<le> length ps" .
  moreover have "length (take i s) \<le> i" by simp
  ultimately show False using eq assms(2) by (cases pat) auto
qed

subsection \<open>Facts about splitting and removing\<close>

lemma split_from_nonempty: "split_from cur sep s \<noteq> []"
  by (induction s arbitrary: cur) auto

lemma last_split_from:
  "last (split_from cur sep s) = (if sep \<in> set s then text_after_last sep s else cur @ s)"
proof (induction s arbitrary: cur)
  case Nil
  then show ?case by simp
next
  case (Cons c cs)
  show ?case
  proof (cases "c = sep")
    case True
    then show ?thesis
      using Cons.IH [of "[]"] split_from_nonempty [of "[]" sep cs]
      by (auto simp: text_after_last_def takeWhile_append)
  next
    case False
    then show ?thesis
      using Cons.IH [of "cur @ [c]"]
      by (auto simp: text_after_last_def takeWhile_append)
  qed
qed

lemma text_after_last_absent:
  assumes "sep \<notin> set s"
  shows "text_after_last sep s = s"
proof -
  have "\<forall>c \<in> set (rev s). c \<noteq> sep"
    using assms by auto
  then have "takeWhile (\<lambda>c. c \<noteq> sep) (rev s) = rev s"
    by (simp only: takeWhile_eq_all_conv)
  then show ?thesis
    unfolding text_after_last_def by (simp only: rev_rev_ident)
qed

lemma pop_split: "pop (split s sep) = text_after_last sep s"
  by (simp add: pop_def split_def last_split_from text_after_last_absent)

lemma toLowerCase_samples: "toLowerCase ''CSV'' = ''csv'' \<and> toLowerCase ''txt'' = ''txt''"
  by code_simp

lemma replace_remove_first: "replace s pat [] = remove_first pat s"
proof (induction s)
  case Nil
  then show ?case by (simp add: replace_def)
next
  case (Cons c cs)
  then show ?case
    by (auto simp: replace_def split: option.splits)
qed

text \<open>
  What \<^const>\<open>remove_first\<close> means: a string in which the pattern does not occur is
  left alone; otherwise the occurrence that starts earliest is cut out.
\<close>

lemma remove_first_absent: "\<not> sublist pat s \<Longrightarrow> remove_first pat s = s"
  by (induction s) (auto simp: sublist_Cons_right)

lemma remove_first_prefix: "remove_first pat (pat @ post) = post"
proof (cases "pat @ post")
  case Nil
  then show ?thesis by simp
next
  case (Cons a list)
  have "prefix pat (a # list)"
    using Cons by (metis prefixI)
  moreover have "drop (length pat) (a # list) = post"
    using Cons by (metis append_eq_conv_conj)
  ultimately show ?thesis
    using Cons by simp
qed

lemma remove_first_occurrence:
  assumes "s = pre @ pat @ post"
    and "\<And>pre2 post2. s = pre2 @ pat @ post2 \<Longrightarrow> length pre \<le> length pre2"
  shows "remove_first pat s = pre @ post"
  using assms
proof (induction pre arbitrary: s)
  case Nil
  then show ?case by (simp add: remove_first_prefix)
next
  case (Cons a pre)
  have np: "\<not> prefix pat s"
  proof
    assume "prefix pat s"
    then obtain post2 where "s = [] @ pat @ post2" by (auto simp: prefix_def)
    from Cons.prems(2) [OF this] show False by simp
  qed
  have tl: "remove_first pat (pre @ pat @ post) = pre @ post"
  proof (rule Cons.IH [OF refl])
    fix pre2 post2 assume "pre @ pat @ post = pre2 @ pat @ post2"
    then have "s = (a # pre2) @ pat @ post2" using Cons.prems(1) by simp
    from Cons.prems(2) [OF this] show "length pre \<le> length pre2" by simp
  qed
  show ?case using np tl Cons.prems(1) by simp
qed

lemma relativeToPath_eq:
  "rp \<noteq> [] \<Longrightarrow> relativeToPath rp = (if last rp = CHR ''/'' then rp else rp @ ''/'')"
  by (auto simp: relativeToPath_def endsWith_def suffix_def) (metis append_butlast_last_id)

subsection \<open>Facts about class names\<close>

lemma tokens_from_sublist: "t \<in> set (tokens_from cur s) \<Longrightarrow> sublist t (cur @ s)"
proof (induction s arbitrary: cur)
  case Nil
  then show ?case by (auto split: if_splits)
next
  case (Cons c cs)
  show ?case
  proof (cases "ascii_whitespace c")
    case True
    with Cons.prems have "t = cur \<or> t \<in> set (tokens_from [] cs)"
      by (auto split: if_splits)
    then show ?thesis
    proof
      assume "t = cur" then show ?thesis by simp
    next
      assume "t \<in> set (tokens_from [] cs)"
      then have "sublist t cs" using Cons.IH [of "[]"] by simp
      then obtain ps ss where "cs = ps @ t @ ss" by (auto simp: sublist_def)
      then have "cur @ c # cs = (cur @ c # ps) @ t @ ss" by simp
      then show ?thesis unfolding sublist_def by blast
    qed
  next
    case False
    with Cons.prems have "t \<in> set (tokens_from (cur @ [c]) cs)" by simp
    then show ?thesis using Cons.IH [of "cur @ [c]"] by simp
  qed
qed

lemma tokens_from_word:
  "\<forall>c \<in> set m. \<not> ascii_whitespace c \<Longrightarrow>
     tokens_from cur m = (if cur @ m = [] then [] else [cur @ m])"
  by (induction m arbitrary: cur) auto

lemma tokens_from_last_word:
  assumes "\<forall>c \<in> set m. \<not> ascii_whitespace c" and "m \<noteq> []" and "ascii_whitespace sp"
  shows "m \<in> set (tokens_from cur (p @ sp # m))"
  using assms
proof (induction p arbitrary: cur)
  case Nil
  then show ?case by (simp add: tokens_from_word)
next
  case (Cons a p)
  then show ?case by simp
qed

lemma disabled_class_chars:
  "\<forall>c \<in> set disabled_class. \<not> ascii_whitespace c" "disabled_class \<noteq> []"
  "CHR '' '' \<notin> set disabled_class" "ascii_whitespace CHR '' ''"
  by (simp_all add: disabled_class_def ascii_whitespace_def)

lemma plain_not_carried: "plain_className cn \<Longrightarrow> disabled_class \<notin> set (classList cn)"
  using tokens_from_sublist [of disabled_class "[]" cn]
  by (auto simp: plain_className_def classList_def indexOf_None_iff)

lemma marked_carried: "disabled_class \<in> set (classList (p @ CHR '' '' # disabled_class))"
  using tokens_from_last_word [of disabled_class "CHR '' ''" "[]" p] disabled_class_chars
  by (simp add: classList_def)

lemma sublist_trans: "sublist (a::'a list) b \<Longrightarrow> sublist b c \<Longrightarrow> sublist a c"
  by (rule sublist_order.order.trans)

lemma trim_sublist: "sublist (trim s) s"
proof -
  have "sublist (rev (dropWhile js_whitespace (rev (dropWhile js_whitespace s))))
          (dropWhile js_whitespace s)"
    by (simp add: sublist_rev_left)
  then show ?thesis
    unfolding trim_def using sublist_dropWhile sublist_trans by blast
qed

lemma plain_sublist: "plain_className s \<Longrightarrow> sublist t s \<Longrightarrow> plain_className t"
  unfolding plain_className_def indexOf_None_iff
  using sublist_trans by blast

lemma no_prefix_across:
  assumes "\<not> sublist d p" and "c \<notin> set d"
  shows "\<not> prefix d (p @ c # rest)"
proof
  assume "prefix d (p @ c # rest)"
  then consider "prefix d p" | us where "d = p @ us" "prefix us (c # rest)"
    by (auto simp: prefix_append)
  then show False
  proof cases
    case 1
    then show ?thesis using assms(1) by auto
  next
    case 2
    show ?thesis
    proof (cases us)
      case Nil
      with 2 assms(1) show ?thesis by simp
    next
      case (Cons u us')
      with 2 have "u = c" by simp
      with Cons 2 assms(2) show ?thesis by simp
    qed
  qed
qed

lemma first_marker:
  "plain_className p \<Longrightarrow>
     indexOf (p @ CHR '' '' # disabled_class) disabled_class = Some (Suc (length p))"
proof (induction p)
  case Nil
  have "\<not> prefix disabled_class (CHR '' '' # disabled_class)"
    by (simp add: disabled_class_def)
  then show ?case by (simp add: indexOf_0_iff)
next
  case (Cons a p)
  have "\<not> prefix disabled_class ((a # p) @ CHR '' '' # disabled_class)"
    using Cons.prems disabled_class_chars(3)
    unfolding plain_className_def indexOf_None_iff
    by (rule no_prefix_across)
  moreover have "plain_className p"
    using Cons.prems plain_sublist [of "a # p" p] by (simp add: sublist_Cons_right)
  ultimately show ?case using Cons.IH by simp
qed


lemma tokens_from_word_then:
  assumes "\<forall>c \<in> set m. \<not> ascii_whitespace c" and "m \<noteq> []"
    and "q = [] \<or> ascii_whitespace (hd q)"
  shows "tokens_from cur (m @ q) = (cur @ m) # tokens_from [] q"
  using assms
proof (induction m arbitrary: cur)
  case Nil
  then show ?case by simp
next
  case (Cons a m)
  show ?case
  proof (cases m)
    case Nil
    with Cons.prems show ?thesis by (cases q) auto
  next
    case (Cons b m')
    with Cons.prems Cons.IH [of "cur @ [a]"] show ?thesis by simp
  qed
qed

lemma tokens_from_after_space:
  assumes "ascii_whitespace sp"
  shows "tokens_from cur (p @ sp # rest) = tokens_from cur (p @ [sp]) @ tokens_from [] rest"
  using assms by (induction p arbitrary: cur) auto

lemma delimited_carried:
  assumes "before = [] \<or> ascii_whitespace (last before)"
    and "after = [] \<or> ascii_whitespace (hd after)"
  shows "disabled_class \<in> set (classList (before @ disabled_class @ after))"
proof (cases before rule: rev_cases)
  case Nil
  then show ?thesis
    using tokens_from_word_then [OF disabled_class_chars(1,2) assms(2), of "[]"]
    by (simp add: classList_def)
next
  case (snoc p sp)
  with assms(1) have "ascii_whitespace sp" by simp
  then show ?thesis
    using tokens_from_after_space [of sp "[]" p "disabled_class @ after"]
      tokens_from_word_then [OF disabled_class_chars(1,2) assms(2), of "[]"] snoc
    by (simp add: classList_def)
qed

lemma delimited_removed_plain:
  assumes "\<not> sublist disabled_class before" and "\<not> sublist disabled_class after"
    and "before = [] \<or> ascii_whitespace (last before)"
  shows "\<not> sublist disabled_class (before @ after)"
proof
  assume "sublist disabled_class (before @ after)"
  with assms(1,2) obtain x1 x2 where x: "disabled_class = x1 @ x2" "suffix x1 before" "prefix x2 after"
    by (auto simp: sublist_append)
  show False
  proof (cases x1 rule: rev_cases)
    case Nil
    with x assms(2) show ?thesis by auto
  next
    case (snoc y c)
    with x(2) have "before \<noteq> []" "last before = c" by (auto simp: suffix_def)
    with assms(3) have "ascii_whitespace c" by auto
    moreover have "c \<in> set disabled_class"
      using x(1) snoc by (metis append_assoc in_set_conv_decomp append_Cons append_Nil)
    ultimately show ?thesis using disabled_class_chars(1) by blast
  qed
qed

lemma tidy_plain: "plain_className cn \<Longrightarrow> tidy_className cn"
  by (simp add: tidy_className_def plain_className_def)

lemma tidy_removed_plain:
  assumes "tidy_className cn"
  shows "plain_className (trim (replace cn disabled_class []))"
proof -
  have "plain_className (replace cn disabled_class [])"
  proof (cases "indexOf cn disabled_class")
    case None
    then show ?thesis by (simp add: replace_def plain_className_def)
  next
    case (Some i)
    let ?before = "take i cn" and ?after = "drop (i + length disabled_class) cn"
    have "\<not> sublist disabled_class ?before"
      using indexOf_Some_before [OF Some disabled_class_chars(2)] .
    moreover have "\<not> sublist disabled_class ?after"
      and "?before = [] \<or> ascii_whitespace (last ?before)"
      using assms Some by (simp_all add: tidy_className_def Let_def indexOf_None_iff)
    ultimately have "\<not> sublist disabled_class (?before @ ?after)"
      by (rule delimited_removed_plain)
    then show ?thesis
      using Some by (simp add: replace_def plain_className_def indexOf_None_iff)
  qed
  then show ?thesis
    using plain_sublist trim_sublist by blast
qed

lemma tidy_carried:
  assumes "tidy_className cn" and "\<not> plain_className cn"
  shows "disabled_class \<in> set (classList cn)"
proof -
  from assms(2) obtain i where i: "indexOf cn disabled_class = Some i"
    by (auto simp: plain_className_def)
  let ?before = "take i cn" and ?after = "drop (i + length disabled_class) cn"
  have "?before = [] \<or> ascii_whitespace (last ?before)"
    and "?after = [] \<or> ascii_whitespace (hd ?after)"
    using assms(1) i by (simp_all add: tidy_className_def Let_def)
  then have "disabled_class \<in> set (classList (?before @ disabled_class @ ?after))"
    by (rule delimited_carried)
  then show ?thesis
    using indexOf_Some_decomp [OF i] by simp
qed

lemma tidy_appended:
  assumes "plain_className cn"
  shows "tidy_className (cn @ CHR '' '' # disabled_class)"
  using assms disabled_class_chars(2,4)
  by (simp add: tidy_className_def first_marker Let_def)

lemma update_crumb_title: "crumb_title (update_crumb rootPath c) = crumb_title c"
  by (simp add: update_crumb_def)

lemma update_crumb_carries:
  assumes "tidy_className (className c)"
  shows "carries (update_crumb (Some r) c) disabled_class = (\<not> prefix r (crumb_title c))"
proof (cases "prefix r (crumb_title c)")
  case True
  then show ?thesis
    using tidy_removed_plain [OF assms] plain_not_carried
    by (simp add: update_crumb_def carries_def indexOf_0_iff disabled_class_def)
next
  case False
  show ?thesis
  proof (cases "plain_className (className c)")
    case True
    then show ?thesis
      using False marked_carried [of "className c"]
      by (simp add: update_crumb_def carries_def indexOf_0_iff plain_className_def
          disabled_class_def)
  next
    case np: False
    have "indexOf (className c) ''amphi-BreadCrumbs-disabled'' \<noteq> None"
      using np by (simp add: plain_className_def disabled_class_def)
    then have "update_crumb (Some r) c = c"
      using False by (simp add: update_crumb_def indexOf_0_iff)
    then show ?thesis
      using False tidy_carried [OF assms np] by (simp add: carries_def)
  qed
qed

lemma update_crumb_tidy:
  assumes "tidy_className (className c)"
  shows "tidy_className (className (update_crumb rootPath c))"
proof -
  let ?r = "case rootPath of None \<Rightarrow> [] | Some r \<Rightarrow> r"
  show ?thesis
  proof (cases "prefix ?r (crumb_title c)")
    case True
    then show ?thesis
      using tidy_plain [OF tidy_removed_plain [OF assms]]
      by (simp add: update_crumb_def indexOf_0_iff disabled_class_def)
  next
    case False
    show ?thesis
    proof (cases "plain_className (className c)")
      case True
      then show ?thesis
        using False tidy_appended [of "className c"]
        by (simp add: update_crumb_def indexOf_0_iff plain_className_def disabled_class_def)
    next
      case np: False
      have "indexOf (className c) ''amphi-BreadCrumbs-disabled'' \<noteq> None"
        using np by (simp add: plain_className_def disabled_class_def)
      then have "update_crumb rootPath c = c"
        using False by (simp add: update_crumb_def indexOf_0_iff)
      then show ?thesis using assms by simp
    qed
  qed
qed

lemma onUpdateRequest_tidy:
  assumes "\<forall>c \<in> set breadcrumbs. tidy_className (className c)"
  shows "\<forall>c \<in> set (onUpdateRequest rootPath localPath breadcrumbs). tidy_className (className c)"
  using assms
  by (auto simp: onUpdateRequest_def update_crumb_tidy split: option.splits)

subsection \<open>The selection\<close>

text \<open>
  C4. \<^verbatim>\<open>getValue\<close> returns the selected items of the directory listing, in their
  order, where an item whose type is not \<^verbatim>\<open>'directory'\<close> is always kept and a
  directory is kept if and only if \<^verbatim>\<open>includeDir\<close> is true.
\<close>

theorem getValue_selected:
  "getValue d =
     filter (\<lambda>it. if type it = ''directory'' then includeDir d = Some True else True)
       (selectedItems (directoryListing d))"
  unfolding getValue_def getValue_loop_filter
  by (auto simp: truthy_iff intro: filter_cong)

theorem getValue_selected_witness:
  "getValue (sample_dialog None) = [sample_file]
   \<and> getValue ((sample_dialog None)\<lparr> includeDir := Some True \<rparr>) = [sample_dir, sample_file]"
  using getValue_selected [of "sample_dialog None"]
    getValue_selected [of "(sample_dialog None)\<lparr> includeDir := Some True \<rparr>"]
  by (simp add: sample_dialog_def sample_listing_def sample_file_def sample_dir_def)

subsection \<open>Event routing\<close>

text \<open>
  C3. For an event of type \<^verbatim>\<open>keydown\<close>, \<^verbatim>\<open>keyup\<close>, \<^verbatim>\<open>mousedown\<close>,
  \<^verbatim>\<open>mouseup\<close> or \<^verbatim>\<open>click\<close>, \<^verbatim>\<open>handleEvent\<close> forwards the event to
  the original handler of the listing if and only if \<^verbatim>\<open>multiselect\<close> is true or
  no modifier key (shift or meta) is pressed; otherwise it does nothing with the event.
\<close>

theorem handleEvent_modifier:
  assumes "etype ev \<in> {''keydown'', ''keyup'', ''mousedown'', ''mouseup'', ''click''}"
  shows "(Forward ev \<in> set (handleEvent d okButton ev))
           = (multiselect d = Some True \<or> \<not> modifierKey ev)
       \<and> (multiselect d = Some True \<or> \<not> modifierKey ev
            \<longrightarrow> handleEvent d okButton ev = [Forward ev])
       \<and> (\<not> (multiselect d = Some True \<or> \<not> modifierKey ev)
            \<longrightarrow> handleEvent d okButton ev = [])"
  using assms by (auto simp: handleEvent_def truthy_iff)

theorem handleEvent_modifier_witness:
  "handleEvent (sample_dialog None) True (MouseEvent ''click'' True False) = []
   \<and> handleEvent (sample_dialog None) True (KeyboardEvent ''keydown'' False False)
       = [Forward (KeyboardEvent ''keydown'' False False)]
   \<and> handleEvent ((sample_dialog None)\<lparr> multiselect := Some True \<rparr>) True
         (MouseEvent ''click'' True False)
       = [Forward (MouseEvent ''click'' True False)]"
  using handleEvent_modifier [of "MouseEvent ''click'' True False" "sample_dialog None" True]
    handleEvent_modifier [of "KeyboardEvent ''keydown'' False False" "sample_dialog None" True]
    handleEvent_modifier [of "MouseEvent ''click'' True False"
      "(sample_dialog None)\<lparr> multiselect := Some True \<rparr>" True]
  by (simp add: sample_dialog_def)

text \<open>
  C5. A \<^verbatim>\<open>dblclick\<close> on an item of type \<^verbatim>\<open>'directory'\<close> is forwarded to
  the original handler of the listing, and nothing else is done.
\<close>

theorem handleEvent_dblclick_directory:
  assumes "etype ev = ''dblclick''"
    and "modelForClick (directoryListing d) ev = Some clickedItem"
    and "type clickedItem = ''directory''"
  shows "handleEvent d okButton ev = [Forward ev]"
  using assms by (simp add: handleEvent_def)

theorem handleEvent_dblclick_directory_witness:
  "handleEvent (sample_dialog (Some sample_dir)) True (MouseEvent ''dblclick'' False False)
     = [Forward (MouseEvent ''dblclick'' False False)]"
  using handleEvent_dblclick_directory [of "MouseEvent ''dblclick'' False False"
      "sample_dialog (Some sample_dir)" sample_dir True]
  by (simp add: sample_dialog_def sample_listing_def sample_dir_def)

text \<open>
  C2. A \<^verbatim>\<open>dblclick\<close> on an existing item that is not a directory is not forwarded
  to the original handler; \<^verbatim>\<open>preventDefault\<close> and \<^verbatim>\<open>stopPropagation\<close>
  are called, and the accept button of the open dialog is clicked exactly when
  \<^verbatim>\<open>acceptFileOnDblClick\<close> is true. When the options object has no own property
  \<^verbatim>\<open>acceptFileOnDblClick\<close>, \<^verbatim>\<open>showBrowseFileDialog\<close> builds the dialog body
  with \<^verbatim>\<open>acceptFileOnDblClick\<close> true.
\<close>

theorem handleEvent_dblclick_file:
  "(etype ev = ''dblclick'' \<and> modelForClick (directoryListing d) ev = Some clickedItem
      \<and> type clickedItem \<noteq> ''directory'' \<longrightarrow>
        (\<forall>e. Forward e \<notin> set (handleEvent d okButton ev))
      \<and> take 2 (handleEvent d okButton ev) = [PreventDefault, StopPropagation]
      \<and> (okButton \<longrightarrow>
           (ClickAccept \<in> set (handleEvent d okButton ev)) = (acceptFileOnDblClick d = Some True)))
   \<and> (acceptFileOnDblClick_opt options = None \<longrightarrow>
        acceptFileOnDblClick (body (new_Dialog listing options)) = Some True)"
  by (auto simp: handleEvent_def truthy_iff new_Dialog_def init_def new_BrowseFileDialog_def
      init_options_of_def)

theorem handleEvent_dblclick_file_witness:
  "handleEvent (sample_dialog (Some sample_file)) True (MouseEvent ''dblclick'' False False)
     = [PreventDefault, StopPropagation, ClickAccept]
   \<and> acceptFileOnDblClick (body (new_Dialog (sample_listing None) sample_options)) = Some True"
  using handleEvent_dblclick_file [of "MouseEvent ''dblclick'' False False"
      "sample_dialog (Some sample_file)" sample_file True sample_options "sample_listing None"]
  by (simp add: sample_dialog_def sample_listing_def sample_file_def sample_options_def
      handleEvent_def)

text \<open>
  C9. For an event whose type is none of \<^verbatim>\<open>keydown\<close>, \<^verbatim>\<open>keyup\<close>,
  \<^verbatim>\<open>mousedown\<close>, \<^verbatim>\<open>mouseup\<close>, \<^verbatim>\<open>click\<close>, \<^verbatim>\<open>dblclick\<close>, the
  installed \<^verbatim>\<open>handleEvent\<close> does exactly what the original handler of the listing
  does: it passes the same event on to it, and nothing else.
\<close>

theorem handleEvent_other:
  assumes "etype ev \<notin> {''keydown'', ''keyup'', ''mousedown'', ''mouseup'', ''click'', ''dblclick''}"
  shows "handleEvent d okButton ev = [Forward ev]
       \<and> perform orig other (handleEvent d okButton ev) w = orig ev w"
  using assms by (simp add: handleEvent_def)

theorem handleEvent_other_witness:
  "handleEvent (sample_dialog None) False (MouseEvent ''contextmenu'' True True)
     = [Forward (MouseEvent ''contextmenu'' True True)]
   \<and> perform (\<lambda>e n. Suc n) (\<lambda>a n. 0)
       (handleEvent (sample_dialog None) False (MouseEvent ''contextmenu'' True True)) (5::nat) = 6"
  using handleEvent_other [of "MouseEvent ''contextmenu'' True True" "sample_dialog None" False
      "\<lambda>e n. Suc n" "\<lambda>a n. 0" "5::nat"]
  by simp

subsection \<open>Construction\<close>

text \<open>
  C6. The navigation of \<^verbatim>\<open>BrowseFileDialog.init\<close>, as the list of its calls of
  \<^verbatim>\<open>model.cd\<close>; a path is given when it is defined and not the empty string,
  which is what the code tests. If \<^verbatim>\<open>startPath\<close> is given and
  \<^verbatim>\<open>rootPath\<close> is unset or a prefix of it, the one call is
  \<^verbatim>\<open>cd(startPath)\<close>. If \<^verbatim>\<open>startPath\<close> is given and does not start
  with \<^verbatim>\<open>rootPath\<close>, there is no call at all, so no fallback to
  \<^verbatim>\<open>rootPath\<close>. If \<^verbatim>\<open>startPath\<close> is absent and \<^verbatim>\<open>rootPath\<close>
  is given, the one call is \<^verbatim>\<open>cd(rootPath)\<close>.
\<close>

theorem init_navigation:
  "(startPath_in options = Some sp \<and> sp \<noteq> [] \<and>
      (rootPath_in options = None \<or> (\<exists>rp. rootPath_in options = Some rp \<and> prefix rp sp))
      \<longrightarrow> snd (init listing options) = [sp])
 \<and> (startPath_in options = Some sp \<and> sp \<noteq> [] \<and> rootPath_in options = Some rp \<and> \<not> prefix rp sp
      \<longrightarrow> snd (init listing options) = [])
 \<and> (truthy_value (startPath_in options) = None \<and> rootPath_in options = Some rp \<and> rp \<noteq> []
      \<longrightarrow> snd (init listing options) = [rp])"
  by (auto simp: init_def init_cd_def indexOf_0_iff truthy_value_Some truthy_value_None
      split: option.splits)

theorem init_navigation_witness:
  "snd (init (sample_listing None) sample_init_options) = [''data/sub'']
   \<and> snd (init (sample_listing None) (sample_init_options\<lparr> startPath_in := Some ''other/sub'' \<rparr>))
       = []
   \<and> snd (init (sample_listing None) (sample_init_options\<lparr> startPath_in := None \<rparr>))
       = [''data'']"
  using init_navigation [where options = sample_init_options and sp = "''data/sub''"
      and rp = "''data''" and listing = "sample_listing None"]
    init_navigation [where options = "sample_init_options\<lparr> startPath_in := Some ''other/sub'' \<rparr>"
      and sp = "''other/sub''" and rp = "''data''" and listing = "sample_listing None"]
    init_navigation [where options = "sample_init_options\<lparr> startPath_in := None \<rparr>"
      and sp = "[]" and rp = "''data''" and listing = "sample_listing None"]
  by (simp add: sample_init_options_def)

text \<open>
  C7. With a non-empty list \<^verbatim>\<open>extensions\<close>, the filter that
  \<^verbatim>\<open>BrowseFileDialog.init\<close> installs accepts every model of type
  \<^verbatim>\<open>'directory'\<close>, and any other model if and only if \<^verbatim>\<open>'.'\<close> followed by
  the lower-cased text after the last \<^verbatim>\<open>'.'\<close> of its name (the whole name
  when it has no \<^verbatim>\<open>'.'\<close>) is in the list. With
  \<^verbatim>\<open>extensions\<close> absent or empty the installed filter is
  \<^verbatim>\<open>options.filter\<close>, and the filter that accepts everything when that is absent
  too.
\<close>

theorem init_filter:
  "(extensions_in options = Some exts \<and> exts \<noteq> [] \<longrightarrow>
      model_filter (fst (init listing options)) model
        = (if type model = ''directory'' then True
           else ''.'' @ toLowerCase (text_after_last CHR ''.'' (name model)) \<in> set exts))
 \<and> (extensions_in options = None \<or> extensions_in options = Some [] \<longrightarrow>
      (\<forall>f. filter_in options = Some f \<longrightarrow> model_filter (fst (init listing options)) = f)
    \<and> (filter_in options = None \<longrightarrow> model_filter (fst (init listing options)) model))"
  by (auto simp: init_def new_BrowseFileDialog_def filterFunction_def extensionFilter_def
      pop_split split: option.splits)

theorem init_filter_witness:
  "model_filter (fst (init (sample_listing None) sample_init_options)) sample_file
   \<and> model_filter (fst (init (sample_listing None) sample_init_options)) sample_dir
   \<and> \<not> model_filter (fst (init (sample_listing None) sample_init_options))
         (sample_file\<lparr> name := ''notes.txt'' \<rparr>)
   \<and> model_filter (fst (init (sample_listing None) (sample_init_options\<lparr> extensions_in := Some [] \<rparr>)))
         (sample_file\<lparr> name := ''notes.txt'' \<rparr>)"
  using init_filter [where options = sample_init_options and exts = "[''.csv'', ''.json'']"
      and listing = "sample_listing None" and model = sample_file]
    init_filter [where options = sample_init_options and exts = "[''.csv'', ''.json'']"
      and listing = "sample_listing None" and model = sample_dir]
    init_filter [where options = sample_init_options and exts = "[''.csv'', ''.json'']"
      and listing = "sample_listing None" and model = "sample_file\<lparr> name := ''notes.txt'' \<rparr>"]
    init_filter [where options = "sample_init_options\<lparr> extensions_in := Some [] \<rparr>"
      and exts = "[]" and listing = "sample_listing None"
      and model = "sample_file\<lparr> name := ''notes.txt'' \<rparr>"]
    toLowerCase_samples
  by (simp add: sample_init_options_def sample_file_def sample_dir_def text_after_last_def)

subsection \<open>Showing the dialog\<close>

text \<open>
  C10. \<^verbatim>\<open>showBrowseFileDialog\<close> creates one dialog, titled
  \<^verbatim>\<open>'Select a file'\<close>, with exactly the two buttons \<^verbatim>\<open>Dialog.cancelButton()\<close>
  and \<^verbatim>\<open>Dialog.okButton({ label: 'Select' })\<close>, and what it returns is the result
  of launching that dialog: the same pressed button, and the same items up to the
  rewriting of their paths. (That the dialog is modal is a property of the host's
  \<^verbatim>\<open>Dialog\<close>; when the pressed button accepts, the host's value is the list of
  \<^verbatim>\<open>getValue\<close>, not \<^verbatim>\<open>null\<close>.)
\<close>

theorem showBrowseFileDialog_dialog:
  "(\<exists>dlg. title dlg = ''Select a file''
        \<and> buttons dlg = [CancelButton, OkButton ''Select'']
        \<and> (\<forall>launch. showBrowseFileDialog launch listing options = on_result options (launch dlg)))
   \<and> ((button_accept res \<longrightarrow> result_value res \<noteq> None) \<longrightarrow>
        (\<exists>r. on_result options res = Inr r \<and> button_accept r = button_accept res
           \<and> rel_option (list_all2 (\<lambda>a b. name a = name b \<and> type a = type b))
                (result_value r) (result_value res)))"
proof (intro conjI impI)
  show "\<exists>dlg. title dlg = ''Select a file''
        \<and> buttons dlg = [CancelButton, OkButton ''Select'']
        \<and> (\<forall>launch. showBrowseFileDialog launch listing options = on_result options (launch dlg))"
    by (rule exI [of _ "new_Dialog listing options"])
       (simp add: new_Dialog_def showBrowseFileDialog_def)
next
  assume "button_accept res \<longrightarrow> result_value res \<noteq> None"
  then show "\<exists>r. on_result options res = Inr r \<and> button_accept r = button_accept res
           \<and> rel_option (list_all2 (\<lambda>a b. name a = name b \<and> type a = type b))
                (result_value r) (result_value res)"
    by (cases "result_value res")
       (auto simp: on_result_def option.rel_refl list.rel_refl list_all2_map1
          split: option.splits intro!: list_all2_refl option.rel_refl)
qed

theorem showBrowseFileDialog_dialog_witness:
  "\<exists>r. on_result sample_options \<lparr> button_accept = True, result_value = Some [sample_file] \<rparr> = Inr r
       \<and> button_accept r
       \<and> rel_option (list_all2 (\<lambda>a b. name a = name b \<and> type a = type b))
            (result_value r) (Some [sample_file])"
  using showBrowseFileDialog_dialog [where listing = "sample_listing None"
      and options = sample_options
      and res = "\<lparr> button_accept = True, result_value = Some [sample_file] \<rparr>"]
  by simp

text \<open>
  C8. The result of the launched dialog is rewritten exactly when \<^verbatim>\<open>rootPath\<close> is
  set (defined and not empty), the pressed button accepts, and the list of selected items
  is not empty: then the path of every item has lost the first occurrence of
  \<^verbatim>\<open>rootPath\<close>, taken with a \<^verbatim>\<open>'/'\<close> appended unless it ends in one, and
  nothing else changes. On cancel, with an empty selection, or without
  \<^verbatim>\<open>rootPath\<close>, the result is returned as it is. (The items of the list are
  distinct objects, so updating each in place is the map over the list.)
\<close>

theorem showBrowseFileDialog_paths:
  assumes "res = launch (new_Dialog listing options)"
  shows "(truthy_value (rootPath_opt options) = Some rp \<and> button_accept res
            \<and> result_value res = Some vals \<and> vals \<noteq> [] \<longrightarrow>
          showBrowseFileDialog launch listing options =
            Inr (res\<lparr> result_value := Some (map (\<lambda>val. val\<lparr> path :=
              remove_first (if last rp = CHR ''/'' then rp else rp @ ''/'') (path val) \<rparr>) vals) \<rparr>))
       \<and> (truthy_value (rootPath_opt options) = None \<or> \<not> button_accept res
            \<or> result_value res = Some [] \<longrightarrow>
          showBrowseFileDialog launch listing options = Inr res)"
  using assms
  by (auto simp: showBrowseFileDialog_def on_result_def replace_remove_first truthy_value_Some
      relativeToPath_eq split: option.splits)

theorem showBrowseFileDialog_paths_witness:
  "showBrowseFileDialog (\<lambda>_. \<lparr> button_accept = True, result_value = Some [sample_file, sample_dir] \<rparr>)
     (sample_listing None) sample_options
     = Inr \<lparr> button_accept = True,
             result_value = Some [sample_file\<lparr> path := ''a.CSV'' \<rparr>, sample_dir\<lparr> path := ''sub'' \<rparr>] \<rparr>
   \<and> showBrowseFileDialog (\<lambda>_. \<lparr> button_accept = False, result_value = None \<rparr>)
       (sample_listing None) sample_options
     = Inr \<lparr> button_accept = False, result_value = None \<rparr>"
  using showBrowseFileDialog_paths [where
      res = "\<lparr> button_accept = True, result_value = Some [sample_file, sample_dir] \<rparr>"
      and launch = "\<lambda>_. \<lparr> button_accept = True, result_value = Some [sample_file, sample_dir] \<rparr>"
      and listing = "sample_listing None" and options = sample_options and rp = "''data''"
      and vals = "[sample_file, sample_dir]"]
    showBrowseFileDialog_paths [where
      res = "\<lparr> button_accept = False, result_value = None \<rparr>"
      and launch = "\<lambda>_. \<lparr> button_accept = False, result_value = None \<rparr>"
      and listing = "sample_listing None" and options = sample_options and rp = "''data''"
      and vals = "[]"]
  by (simp add: sample_options_def sample_file_def sample_dir_def)

subsection \<open>Breadcrumbs\<close>

text \<open>
  C1. Let the dialog be constructed with a (non-empty) \<^verbatim>\<open>rootPath\<close> and let the
  model's local path start with it. Then after an update request every breadcrumb element
  whose title does not start with \<^verbatim>\<open>rootPath\<close> carries the class
  \<^verbatim>\<open>amphi-BreadCrumbs-disabled\<close>, and every element whose title starts with
  \<^verbatim>\<open>rootPath\<close> does not carry it. The class names of the elements are those the
  host toolkit and this widget write (\<open>tidy_className\<close>); by
  \<open>onUpdateRequest_tidy\<close> they stay so after every request.
\<close>

theorem onUpdateRequest_disabled:
  assumes "breadCrumbs_rootPath d = Some r" and "r \<noteq> []" and "prefix r localPath"
    and "\<forall>c \<in> set breadcrumbs. tidy_className (className c)"
  shows "\<forall>c \<in> set (onUpdateRequest (breadCrumbs_rootPath d) localPath breadcrumbs).
           carries c disabled_class = (\<not> prefix r (crumb_title c))"
proof -
  have "localPath \<noteq> []"
    using assms(2,3) by auto
  then have "onUpdateRequest (breadCrumbs_rootPath d) localPath breadcrumbs
               = map (update_crumb (Some r)) breadcrumbs"
    using assms(1,2,3) by (simp add: onUpdateRequest_def indexOf_0_iff)
  then show ?thesis
    using assms(4) by (auto simp: update_crumb_carries update_crumb_title)
qed

theorem onUpdateRequest_disabled_witness:
  "map className (onUpdateRequest (breadCrumbs_rootPath (sample_dialog None)) ''data/sub'' sample_crumbs)
     = [''jp-BreadCrumbs-home amphi-BreadCrumbs-disabled'',
        ''jp-BreadCrumbs-item  jp-mod-dropTarget'',
        ''jp-BreadCrumbs-item'']
   \<and> map (\<lambda>c. carries c disabled_class)
       (onUpdateRequest (breadCrumbs_rootPath (sample_dialog None)) ''data/sub'' sample_crumbs)
     = [True, False, False]"
  using onUpdateRequest_disabled [where d = "sample_dialog None" and r = "''data''"
      and localPath = "''data/sub''" and breadcrumbs = sample_crumbs]
  by (simp add: sample_dialog_def sample_crumbs_def tidy_className_def disabled_class_def
      ascii_whitespace_def onUpdateRequest_def update_crumb_def replace_def trim_def
      js_whitespace_def)

end
